theory Spec2Isabelle
  imports Main "HOL-Library.Word" "HOL-Library.FSet" "HOL-Library.Finite_Map"
begin

section \<open>Data model of the peer connection manager\<close>

text \<open>
  The embedded code is \<^verbatim>\<open>signature-aggregator/peers/app_request_network.go\<close>:
  the methods \<^verbatim>\<open>ConnectPeers\<close> and \<^verbatim>\<open>ConnectToCanonicalValidators\<close> of
  \<^verbatim>\<open>AppRequestNetwork\<close>.

  A node identifier (\<^verbatim>\<open>ids.NodeID\<close>), a subnet identifier (\<^verbatim>\<open>ids.ID\<close>) and a
  network address are opaque values that the code only compares and passes on. A
  \<^verbatim>\<open>set.Set[ids.NodeID]\<close> is a finite set (\<open>Add\<close> is \<open>finsert\<close>, \<open>Contains\<close> is
  membership, \<open>Len\<close> is \<open>fcard\<close>; the \<^verbatim>\<open>nil\<close> set is the empty set, and Go
  cannot tell the two apart through these operations). A Go \<^verbatim>\<open>map[ids.NodeID]int\<close> is a
  finite map. A validator weight is a \<^verbatim>\<open>uint64\<close>, whose addition wraps around.
\<close>

type_synonym NodeID = nat
type_synonym SubnetID = nat
type_synonym IPPort = string

record Validator =
  PublicKey :: string
  Weight :: "64 word"
  NodeIDs :: "NodeID list"

text \<open>An entry of the peer list answered by the info API (\<^verbatim>\<open>info.Peer\<close>).\<close>

record Peer =
  ID :: NodeID
  PublicIP :: IPPort

text \<open>The result struct \<^verbatim>\<open>libPeers.ConnectedCanonicalValidators\<close>.\<close>

record ConnectedCanonicalValidators =
  ConnectedWeight :: "64 word"
  TotalValidatorWeight :: "64 word"
  ValidatorSet :: "Validator list"
  NodeValidatorIndexMap :: "(NodeID, nat) fmap"

text \<open>
  What a call can end with instead of a result: the error of the validator client,
  handed on unchanged, or the run-time panic of an index out of range.
\<close>

datatype error = ResolutionFailed string | IndexOutOfRange

text \<open>
  The calls that leave the process, in the order in which they are made. The connection
  set itself lives in the network library; what the code does to it is the sequence of
  \<^verbatim>\<open>ManuallyTrack\<close> calls.
\<close>

datatype event =
    PeerInfoCall "NodeID fset"
  | InfoPeersCall
  | ManuallyTrack NodeID IPPort
  | LogError string

text \<open>
  The collaborators held by \<^verbatim>\<open>AppRequestNetwork\<close> are outside this repository's
  sources, so their answers are fields of the receiver:
  \<^item> \<open>network_PeerInfo\<close>: the answer of \<^verbatim>\<open>n.network.PeerInfo(nodeIDs.List())\<close>, of which
    the code reads only the length (the list order of a Go set is unspecified, so the
    argument is the set);
  \<^item> \<open>infoAPI_Peers\<close>: the answer of \<^verbatim>\<open>n.infoAPI.Peers(ctx)\<close>, an error or the peer list;
  \<^item> \<open>validatorClient_GetCurrentCanonicalValidatorSet\<close>: the answer of the validator
    client, an error or the validator set with its total weight.
\<close>

record AppRequestNetwork =
  network_PeerInfo :: "NodeID fset \<Rightarrow> NodeID list"
  infoAPI_Peers :: "string + Peer list"
  validatorClient_GetCurrentCanonicalValidatorSet ::
    "SubnetID \<Rightarrow> string + (Validator list \<times> 64 word)"

section \<open>ConnectPeers\<close>

text \<open>
  The loop \<^verbatim>\<open>for _, peer := range peers\<close> of \<^verbatim>\<open>ConnectPeers\<close>, with the set
  \<open>trackedNodes\<close> and the calls made so far as accumulators. The \<^verbatim>\<open>return\<close> inside the
  loop is the branch that does not recurse.
\<close>

fun trackPeers ::
  "NodeID fset \<Rightarrow> Peer list \<Rightarrow> NodeID fset \<Rightarrow> event list \<Rightarrow> NodeID fset \<times> event list" where
  "trackPeers nodeIDs [] trackedNodes evs = (trackedNodes, evs)"
| "trackPeers nodeIDs (peer # peers) trackedNodes evs =
     (if ID peer |\<in>| nodeIDs then
        (let trackedNodes' = finsert (ID peer) trackedNodes;
             evs' = evs @ [ManuallyTrack (ID peer) (PublicIP peer)]
         in if fcard trackedNodes' = fcard nodeIDs then (trackedNodes', evs')
            else trackPeers nodeIDs peers trackedNodes' evs')
      else trackPeers nodeIDs peers trackedNodes evs)"

definition ConnectPeers :: "AppRequestNetwork \<Rightarrow> NodeID fset \<Rightarrow> NodeID fset \<times> event list" where
  "ConnectPeers n nodeIDs =
     (let connectedPeers = network_PeerInfo n nodeIDs
      in if length connectedPeers = fcard nodeIDs then (nodeIDs, [PeerInfoCall nodeIDs])
         else (case infoAPI_Peers n of
                 Inl err \<Rightarrow>
                   ({||}, [PeerInfoCall nodeIDs, InfoPeersCall, LogError ''Failed to get peers''])
               | Inr peers \<Rightarrow>
                   trackPeers nodeIDs peers {||} [PeerInfoCall nodeIDs, InfoPeersCall]))"

section \<open>ConnectToCanonicalValidators\<close>

text \<open>
  The nested loop that fills \<open>nodeValidatorIndexMap\<close>: the inner loop over the nodes of
  the validator at index \<open>i\<close>, and the outer loop over the validator set.
\<close>

fun indexNodes :: "nat \<Rightarrow> NodeID list \<Rightarrow> (NodeID, nat) fmap \<Rightarrow> (NodeID, nat) fmap" where
  "indexNodes i [] m = m"
| "indexNodes i (node # nodes) m = indexNodes i nodes (fmupd node i m)"

fun indexValidators :: "nat \<Rightarrow> Validator list \<Rightarrow> (NodeID, nat) fmap \<Rightarrow> (NodeID, nat) fmap" where
  "indexValidators i [] m = m"
| "indexValidators i (vdr # vdrs) m = indexValidators (Suc i) vdrs (indexNodes i (NodeIDs vdr) m)"

definition buildNodeValidatorIndexMap :: "Validator list \<Rightarrow> (NodeID, nat) fmap" where
  "buildNodeValidatorIndexMap validatorSet = indexValidators 0 validatorSet fmempty"

text \<open>
  \<^verbatim>\<open>nodeValidatorIndexMap[node]\<close>: a Go map answers the zero value for a missing key.
\<close>

definition mapIndex :: "(NodeID, nat) fmap \<Rightarrow> NodeID \<Rightarrow> nat" where
  "mapIndex m node = (case fmlookup m node of None \<Rightarrow> 0 | Some i \<Rightarrow> i)"

text \<open>
  The loop \<^verbatim>\<open>for node := range connectedNodes\<close>, which adds
  \<^verbatim>\<open>validatorSet[nodeValidatorIndexMap[node]].Weight\<close> to a \<^verbatim>\<open>uint64\<close> once for every
  connected node. The addition of \<open>64 word\<close> wraps around and is commutative, so the
  unspecified iteration order of the Go set does not matter and the loop is a sum over
  the set. An index outside the slice panics.
\<close>

definition sumConnectedWeight ::
  "Validator list \<Rightarrow> (NodeID, nat) fmap \<Rightarrow> NodeID fset \<Rightarrow> error + 64 word" where
  "sumConnectedWeight validatorSet m connectedNodes =
     (if fBall connectedNodes (\<lambda>node. mapIndex m node < length validatorSet)
      then Inr (\<Sum>node \<in> fset connectedNodes. Weight (validatorSet ! mapIndex m node))
      else Inl IndexOutOfRange)"

definition ConnectToCanonicalValidators ::
  "AppRequestNetwork \<Rightarrow> SubnetID \<Rightarrow> (error + ConnectedCanonicalValidators) \<times> event list" where
  "ConnectToCanonicalValidators n subnetID =
     (case validatorClient_GetCurrentCanonicalValidatorSet n subnetID of
        Inl err \<Rightarrow> (Inl (ResolutionFailed err), [])
      | Inr (validatorSet, totalValidatorWeight) \<Rightarrow>
          (let nodeValidatorIndexMap = buildNodeValidatorIndexMap validatorSet;
               nodeIDs = fmdom nodeValidatorIndexMap;
               (connectedNodes, evs) = ConnectPeers n nodeIDs
           in (case sumConnectedWeight validatorSet nodeValidatorIndexMap connectedNodes of
                 Inl panic \<Rightarrow> (Inl panic, evs)
               | Inr connectedWeight \<Rightarrow>
                   (Inr \<lparr>ConnectedWeight = connectedWeight,
                         TotalValidatorWeight = totalValidatorWeight,
                         ValidatorSet = validatorSet,
                         NodeValidatorIndexMap = nodeValidatorIndexMap\<rparr>, evs))))"

section \<open>Signature collection\<close>

text \<open>
  Modelled from the spec: the signature collection round \<^verbatim>\<open>CollectSignatures\<close> (section
  4.3 of the specification) is not among the sources, which hold only the peer connection
  manager. The data of the round follows the specification's data model: a response
  carries the node identifier, the raw partial signature and an optional error; the
  result carries the bitset of the contributing validators (a set of canonical indices),
  the achieved weight and the total weight. Weights are added as natural numbers, the
  values of the validators' \<^verbatim>\<open>uint64\<close> weights. The verification of a partial
  signature against a public key and the message bytes is cryptography outside the
  model and is a parameter.
\<close>

record SignatureResponse =
  respNodeID :: NodeID
  respSignature :: string
  respError :: "string option"

datatype roundEnd = Exhausted | TimeoutElapsed

datatype collectError = QuorumNotMetError nat nat | AggregationTimeoutError

record AggregateResult =
  signers :: "nat fset"
  achievedWeight :: nat
  totalWeight :: nat

type_synonym verifier = "string \<Rightarrow> string \<Rightarrow> string \<Rightarrow> bool"

text \<open>
  Modelled from the spec: step 3 of the algorithm for one response. The responding node
  is resolved to its validator through the node-validator index, and the partial
  signature is verified against that validator's public key and the message; a response
  that carries an error, that comes from a node without a validator in the set, or whose
  signature fails the verification is discarded.
\<close>

definition creditedValidator ::
  "verifier \<Rightarrow> ConnectedCanonicalValidators \<Rightarrow> string \<Rightarrow> SignatureResponse \<Rightarrow> nat option" where
  "creditedValidator verify cv unsignedMessage r =
     (case fmlookup (NodeValidatorIndexMap cv) (respNodeID r) of
        None \<Rightarrow> None
      | Some i \<Rightarrow>
          if i < length (ValidatorSet cv) \<and> respError r = None
             \<and> verify (PublicKey (ValidatorSet cv ! i)) unsignedMessage (respSignature r)
          then Some i else None)"

text \<open>
  Modelled from the spec: steps 3 and 4. The responses that arrive before the round stops
  waiting are taken in their order of arrival, and \<open>ending\<close> says why no further one
  comes: every outstanding request has responded or failed, or the timeout has elapsed.
  The round ends with success as soon as the achieved weight reaches the quorum weight;
  a verified response of a validator that has not contributed yet sets its bit and adds
  its weight, once. Without quorum the round fails with \<^verbatim>\<open>QuorumNotMetError\<close>
  (achieved and required weight) on exhaustion and with \<^verbatim>\<open>AggregationTimeoutError\<close>
  on timeout.
\<close>

fun collectRound ::
  "verifier \<Rightarrow> ConnectedCanonicalValidators \<Rightarrow> string \<Rightarrow> nat \<Rightarrow> roundEnd
     \<Rightarrow> SignatureResponse list \<Rightarrow> nat fset \<Rightarrow> nat \<Rightarrow> collectError + (nat fset \<times> nat)" where
  "collectRound verify cv msg quorumWeight ending [] bits achieved =
     (if quorumWeight \<le> achieved then Inr (bits, achieved)
      else Inl (case ending of
                  Exhausted \<Rightarrow> QuorumNotMetError achieved quorumWeight
                | TimeoutElapsed \<Rightarrow> AggregationTimeoutError))"
| "collectRound verify cv msg quorumWeight ending (r # rs) bits achieved =
     (if quorumWeight \<le> achieved then Inr (bits, achieved)
      else (case creditedValidator verify cv msg r of
              None \<Rightarrow> collectRound verify cv msg quorumWeight ending rs bits achieved
            | Some i \<Rightarrow>
                if i |\<in>| bits then collectRound verify cv msg quorumWeight ending rs bits achieved
                else collectRound verify cv msg quorumWeight ending rs (finsert i bits)
                       (achieved + unat (Weight (ValidatorSet cv ! i)))))"

text \<open>
  Modelled from the spec: the contract \<^verbatim>\<open>CollectSignatures\<close>, a round started with no
  contributor and no weight. The aggregation of the accepted signatures into one
  signature (section 4.4) is a later operation on the result of a round that succeeded.
\<close>

definition CollectSignatures ::
  "verifier \<Rightarrow> ConnectedCanonicalValidators \<Rightarrow> string \<Rightarrow> nat \<Rightarrow> roundEnd
     \<Rightarrow> SignatureResponse list \<Rightarrow> collectError + AggregateResult" where
  "CollectSignatures verify cv msg quorumWeight ending responses =
     (case collectRound verify cv msg quorumWeight ending responses {||} 0 of
        Inl e \<Rightarrow> Inl e
      | Inr (bits, achieved) \<Rightarrow>
          Inr \<lparr>signers = bits, achievedWeight = achieved,
               totalWeight = unat (TotalValidatorWeight cv)\<rparr>)"

section \<open>Vocabulary of the statements\<close>

text \<open>
  The requested nodes among the entries of a directory list, and the \<^verbatim>\<open>ManuallyTrack\<close>
  calls that the loop of \<^verbatim>\<open>ConnectPeers\<close> makes for them, one for every entry whose
  identifier is requested, in the order of the list.
\<close>

definition covered :: "NodeID fset \<Rightarrow> Peer list \<Rightarrow> NodeID fset" where
  "covered S ps = fset_of_list (filter (\<lambda>x. x |\<in>| S) (map ID ps))"

definition tracks :: "NodeID fset \<Rightarrow> Peer list \<Rightarrow> event list" where
  "tracks S ps = map (\<lambda>p. ManuallyTrack (ID p) (PublicIP p)) (filter (\<lambda>p. ID p |\<in>| S) ps)"


text \<open>
  The owners of a node: the indices, in increasing order, of the validators whose node
  list holds it.
\<close>

definition owners :: "Validator list \<Rightarrow> NodeID \<Rightarrow> nat list" where
  "owners validatorSet node =
     filter (\<lambda>i. node \<in> set (NodeIDs (validatorSet ! i))) [0..<length validatorSet]"

text \<open>
  The connected weight in the words of the specification: the sum of the weights of the
  validators with at least one connected node, every validator once.
\<close>

definition weightOfConnectedValidators :: "Validator list \<Rightarrow> NodeID fset \<Rightarrow> 64 word" where
  "weightOfConnectedValidators validatorSet connectedNodes =
     sum_list (map Weight
       (filter (\<lambda>vdr. \<exists>node \<in> set (NodeIDs vdr). node |\<in>| connectedNodes) validatorSet))"

text \<open>
  The validators whose signatures are received and verified in a round, and the sum of
  the weights of a set of validators.
\<close>

definition verifiedSigners ::
  "verifier \<Rightarrow> ConnectedCanonicalValidators \<Rightarrow> string \<Rightarrow> SignatureResponse list \<Rightarrow> nat fset" where
  "verifiedSigners verify cv msg responses =
     fset_of_list (List.map_filter (creditedValidator verify cv msg) responses)"

definition weightOf :: "ConnectedCanonicalValidators \<Rightarrow> nat fset \<Rightarrow> nat" where
  "weightOf cv S = (\<Sum>i \<in> fset S. unat (Weight (ValidatorSet cv ! i)))"

section \<open>Example networks\<close>

text \<open>
  Three validators of weights 40, 35 and 25; the first one runs two nodes. The validator
  client answers this set with total weight 100 for every subnet.
\<close>

definition vdrA :: Validator where
  "vdrA = \<lparr>PublicKey = ''A'', Weight = 40, NodeIDs = [1, 2]\<rparr>"

definition vdrB :: Validator where
  "vdrB = \<lparr>PublicKey = ''B'', Weight = 35, NodeIDs = [3]\<rparr>"

definition vdrC :: Validator where
  "vdrC = \<lparr>PublicKey = ''C'', Weight = 25, NodeIDs = [4]\<rparr>"

definition exampleSet :: "Validator list" where
  "exampleSet = [vdrA, vdrB, vdrC]"

definition examplePeers :: "Peer list" where
  "examplePeers =
     [\<lparr>ID = 1, PublicIP = ''10.0.0.1:9651''\<rparr>, \<lparr>ID = 9, PublicIP = ''10.0.0.9:9651''\<rparr>,
      \<lparr>ID = 2, PublicIP = ''10.0.0.2:9651''\<rparr>, \<lparr>ID = 3, PublicIP = ''10.0.0.3:9651''\<rparr>,
      \<lparr>ID = 4, PublicIP = ''10.0.0.4:9651''\<rparr>, \<lparr>ID = 5, PublicIP = ''10.0.0.5:9651''\<rparr>]"

text \<open>
  The answer of a network library that is connected to the peers \<open>connected\<close> and that,
  as the library used by the repository does, reports every connected peer when it is
  asked about an empty list of node identifiers.
\<close>

definition peerInfoOf :: "NodeID list \<Rightarrow> NodeID fset \<Rightarrow> NodeID list" where
  "peerInfoOf connected S = (if S = {||} then connected else filter (\<lambda>p. p |\<in>| S) connected)"

definition exampleNetwork :: "NodeID list \<Rightarrow> string + Peer list \<Rightarrow> AppRequestNetwork" where
  "exampleNetwork connected directory =
     \<lparr>network_PeerInfo = peerInfoOf connected,
      infoAPI_Peers = directory,
      validatorClient_GetCurrentCanonicalValidatorSet = (\<lambda>subnetID. Inr (exampleSet, 100))\<rparr>"

text \<open>
  A validator set in which node 2 is in the node lists of both validators, and a network
  whose validator client answers it.
\<close>

definition sharedSet :: "Validator list" where
  "sharedSet = [\<lparr>PublicKey = ''A'', Weight = 40, NodeIDs = [1, 2]\<rparr>,
                \<lparr>PublicKey = ''B'', Weight = 35, NodeIDs = [2, 3]\<rparr>]"

definition sharedNetwork :: "NodeID list \<Rightarrow> string + Peer list \<Rightarrow> AppRequestNetwork" where
  "sharedNetwork connected directory =
     (exampleNetwork connected directory)
       \<lparr>validatorClient_GetCurrentCanonicalValidatorSet := (\<lambda>subnetID. Inr (sharedSet, 75))\<rparr>"

text \<open>
  A round over the example set, all of whose nodes are connected. The example verifier
  accepts the signature that spells the public key and the message.
\<close>

definition exampleVerify :: verifier where
  "exampleVerify publicKey unsignedMessage sig = (sig = publicKey @ '':'' @ unsignedMessage)"

definition exampleConnected :: ConnectedCanonicalValidators where
  "exampleConnected =
     \<lparr>ConnectedWeight = 100, TotalValidatorWeight = 100, ValidatorSet = exampleSet,
      NodeValidatorIndexMap = buildNodeValidatorIndexMap exampleSet\<rparr>"

definition response :: "NodeID \<Rightarrow> string \<Rightarrow> SignatureResponse" where
  "response node sig = \<lparr>respNodeID = node, respSignature = sig, respError = None\<rparr>"

section \<open>Properties of ConnectPeers\<close>

lemma covered_Nil [simp]: "covered S [] = {||}"
  by (simp add: covered_def)

lemma covered_Cons [simp]:
  "covered S (p # ps) = (if ID p |\<in>| S then finsert (ID p) (covered S ps) else covered S ps)"
  by (simp add: covered_def)

lemma tracks_Nil [simp]: "tracks S [] = []"
  by (simp add: tracks_def)

lemma tracks_Cons [simp]:
  "tracks S (p # ps) =
     (if ID p |\<in>| S then ManuallyTrack (ID p) (PublicIP p) # tracks S ps else tracks S ps)"
  by (simp add: tracks_def)

lemma covered_subset: "covered S ps |\<subseteq>| S"
  by (induction ps) auto

lemma trackPeers_subset:
  "trackedNodes |\<subseteq>| nodeIDs \<Longrightarrow> fst (trackPeers nodeIDs peers trackedNodes evs) |\<subseteq>| nodeIDs"
  by (induction peers arbitrary: trackedNodes evs) (auto simp: Let_def)

lemma ConnectPeers_subset: "fst (ConnectPeers n nodeIDs) |\<subseteq>| nodeIDs"
  by (auto simp: ConnectPeers_def Let_def trackPeers_subset split: sum.splits)

lemma trackPeers_none:
  "\<forall>p \<in> set peers. ID p |\<notin>| nodeIDs \<Longrightarrow>
     trackPeers nodeIDs peers trackedNodes evs = (trackedNodes, evs)"
  by (induction peers) auto

lemma trackPeers_events: "\<exists>more. snd (trackPeers S peers trackedNodes evs) = evs @ more"
proof (induction peers arbitrary: trackedNodes evs)
  case Nil
  show ?case by simp
next
  case (Cons p ps)
  let ?e = "ManuallyTrack (ID p) (PublicIP p)"
  from Cons [of "finsert (ID p) trackedNodes" "evs @ [?e]"] obtain more where
    "snd (trackPeers S ps (finsert (ID p) trackedNodes) (evs @ [?e])) = evs @ (?e # more)"
    by auto
  with Cons [of trackedNodes evs] show ?case
    by (auto simp: Let_def)
qed

lemma ConnectPeers_first_event: "\<exists>evs. snd (ConnectPeers n S) = PeerInfoCall S # evs"
  using trackPeers_events [of S _ "{||}" "[PeerInfoCall S, InfoPeersCall]"]
  by (auto simp: ConnectPeers_def Let_def split: sum.splits)

text \<open>
  The loop, started with a set of tracked nodes that is a proper part of the requested
  set, works through a prefix of the directory list: it tracks the requested entries of
  that prefix, and the prefix ends at the first entry that completes the requested set.
\<close>

lemma trackPeers_prefix:
  assumes "trackedNodes |\<subseteq>| S" and "trackedNodes \<noteq> S"
  shows "\<exists>pre suf. peers = pre @ suf
           \<and> trackPeers S peers trackedNodes evs
               = (trackedNodes |\<union>| covered S pre, evs @ tracks S pre)
           \<and> (suf \<noteq> [] \<longrightarrow> trackedNodes |\<union>| covered S pre = S)
           \<and> (\<forall>k<length pre. trackedNodes |\<union>| covered S (take k pre) \<noteq> S)"
  using assms
proof (induction peers arbitrary: trackedNodes evs)
  case Nil
  show ?case by (rule exI [of _ "[]"], rule exI [of _ "[]"]) simp
next
  case (Cons p ps)
  show ?case
  proof (cases "ID p |\<in>| S")
    case False
    from Cons.IH [OF Cons.prems, of evs] obtain pre suf where
      h: "ps = pre @ suf"
         "trackPeers S ps trackedNodes evs = (trackedNodes |\<union>| covered S pre, evs @ tracks S pre)"
         "suf \<noteq> [] \<longrightarrow> trackedNodes |\<union>| covered S pre = S"
         "\<forall>k<length pre. trackedNodes |\<union>| covered S (take k pre) \<noteq> S"
      by blast
    have shortest: "\<forall>k<length (p # pre). trackedNodes |\<union>| covered S (take k (p # pre)) \<noteq> S"
    proof (intro allI impI)
      fix k assume "k < length (p # pre)"
      then show "trackedNodes |\<union>| covered S (take k (p # pre)) \<noteq> S"
        using h(4) False Cons.prems(2) by (cases k) auto
    qed
    show ?thesis
      by (rule exI [of _ "p # pre"], rule exI [of _ suf]) (use h False shortest in simp)
  next
    case True
    let ?t = "finsert (ID p) trackedNodes"
    let ?e = "evs @ [ManuallyTrack (ID p) (PublicIP p)]"
    have sub: "?t |\<subseteq>| S" using True Cons.prems(1) by simp
    show ?thesis
    proof (cases "fcard ?t = fcard S")
      case full: True
      have eq: "?t = S" using sub full by (simp add: fcard_seteq)
      have shortest: "\<forall>k<length [p]. trackedNodes |\<union>| covered S (take k [p]) \<noteq> S"
        using Cons.prems(2) by simp
      show ?thesis
        by (rule exI [of _ "[p]"], rule exI [of _ ps])
           (use True full eq shortest in \<open>simp add: Let_def\<close>)
    next
      case notfull: False
      then have ne: "?t \<noteq> S" by auto
      from Cons.IH [OF sub ne, of ?e] obtain pre suf where
        h: "ps = pre @ suf"
           "trackPeers S ps ?t ?e = (?t |\<union>| covered S pre, ?e @ tracks S pre)"
           "suf \<noteq> [] \<longrightarrow> ?t |\<union>| covered S pre = S"
           "\<forall>k<length pre. ?t |\<union>| covered S (take k pre) \<noteq> S"
        by blast
      have shortest: "\<forall>k<length (p # pre). trackedNodes |\<union>| covered S (take k (p # pre)) \<noteq> S"
      proof (intro allI impI)
        fix k assume "k < length (p # pre)"
        then show "trackedNodes |\<union>| covered S (take k (p # pre)) \<noteq> S"
          using h(4) True Cons.prems(2) by (cases k) auto
      qed
      show ?thesis
        by (rule exI [of _ "p # pre"], rule exI [of _ suf])
           (use h True notfull shortest in \<open>simp add: Let_def\<close>)
    qed
  qed
qed



text \<open>
  Claim C4. When the connections are not all there and the peer directory answers a list,
  what the loop returns and does is settled by a prefix \<open>pre\<close> of that list: the
  returned set is the set of the requested nodes among the entries of \<open>pre\<close>, a subset of
  the requested set; the \<^verbatim>\<open>ManuallyTrack\<close> calls are those for the requested entries
  of \<open>pre\<close>, in order, and no other; entries are left over after \<open>pre\<close> only when the
  returned set is the whole requested set; and no shorter prefix already holds every
  requested node, so the last entry of \<open>pre\<close> is the one that completed the set.
\<close>

theorem ConnectPeers_directory:
  assumes "length (network_PeerInfo n S) \<noteq> fcard S" and "infoAPI_Peers n = Inr peers"
  shows "\<exists>pre suf. peers = pre @ suf
           \<and> fst (ConnectPeers n S) = covered S pre
           \<and> fst (ConnectPeers n S) |\<subseteq>| S
           \<and> snd (ConnectPeers n S) = [PeerInfoCall S, InfoPeersCall] @ tracks S pre
           \<and> (suf \<noteq> [] \<longrightarrow> covered S pre = S)
           \<and> (\<forall>k<length pre. covered S (take k pre) \<noteq> S)"
proof (cases "S = {||}")
  case True
  have "ConnectPeers n S = ({||}, [PeerInfoCall S, InfoPeersCall])"
    using assms True by (simp add: ConnectPeers_def trackPeers_none)
  then show ?thesis
    by (intro exI [of _ "[]"] exI [of _ peers]) (simp add: True)
next
  case False
  then have ne: "{||} \<noteq> S" by auto
  from trackPeers_prefix [of "{||}" S peers "[PeerInfoCall S, InfoPeersCall]", OF _ ne]
  obtain pre suf where
    h: "peers = pre @ suf"
       "trackPeers S peers {||} [PeerInfoCall S, InfoPeersCall]
          = ({||} |\<union>| covered S pre, [PeerInfoCall S, InfoPeersCall] @ tracks S pre)"
       "suf \<noteq> [] \<longrightarrow> {||} |\<union>| covered S pre = S"
       "\<forall>k<length pre. {||} |\<union>| covered S (take k pre) \<noteq> S"
    by auto
  have cp: "ConnectPeers n S = (covered S pre, [PeerInfoCall S, InfoPeersCall] @ tracks S pre)"
    using assms h(2) by (simp add: ConnectPeers_def)
  show ?thesis
    by (rule exI [of _ pre], rule exI [of _ suf]) (use h cp covered_subset in simp)
qed

theorem ConnectPeers_directory_witness:
  "length (network_PeerInfo (exampleNetwork [3] (Inr examplePeers)) {|1, 2|}) \<noteq> fcard {|1, 2 :: NodeID|}
   \<and> infoAPI_Peers (exampleNetwork [3] (Inr examplePeers)) = Inr examplePeers
   \<and> ConnectPeers (exampleNetwork [3] (Inr examplePeers)) {|1, 2|}
       = ({|1, 2|}, [PeerInfoCall {|1, 2|}, InfoPeersCall,
                     ManuallyTrack 1 ''10.0.0.1:9651'', ManuallyTrack 2 ''10.0.0.2:9651''])
   \<and> (\<exists>pre suf. examplePeers = pre @ suf
        \<and> fst (ConnectPeers (exampleNetwork [3] (Inr examplePeers)) {|1, 2|}) = covered {|1, 2|} pre
        \<and> fst (ConnectPeers (exampleNetwork [3] (Inr examplePeers)) {|1, 2|}) |\<subseteq>| {|1, 2|}
        \<and> snd (ConnectPeers (exampleNetwork [3] (Inr examplePeers)) {|1, 2|})
            = [PeerInfoCall {|1, 2|}, InfoPeersCall] @ tracks {|1, 2|} pre
        \<and> (suf \<noteq> [] \<longrightarrow> covered {|1, 2|} pre = {|1, 2|})
        \<and> (\<forall>k<length pre. covered {|1, 2|} (take k pre) \<noteq> {|1, 2|}))"
proof -
  let ?n = "exampleNetwork [3] (Inr examplePeers)"
  have h1: "length (network_PeerInfo ?n {|1, 2|}) \<noteq> fcard {|1, 2 :: NodeID|}"
    by (simp add: exampleNetwork_def peerInfoOf_def fcard_finsert_if)
  have h2: "infoAPI_Peers ?n = Inr examplePeers"
    by (simp add: exampleNetwork_def)
  have v: "ConnectPeers ?n {|1, 2|}
       = ({|1, 2|}, [PeerInfoCall {|1, 2|}, InfoPeersCall,
                     ManuallyTrack 1 ''10.0.0.1:9651'', ManuallyTrack 2 ''10.0.0.2:9651''])"
    by (simp add: ConnectPeers_def exampleNetwork_def peerInfoOf_def fcard_finsert_if
          examplePeers_def Let_def finsert_commute)
  show ?thesis
    using h1 h2 v ConnectPeers_directory [OF h1 h2] by blast
qed




section \<open>Properties of ConnectToCanonicalValidators\<close>

lemma fmlookup_indexNodes:
  "fmlookup (indexNodes i nodes m) node = (if node \<in> set nodes then Some i else fmlookup m node)"
  by (induction nodes arbitrary: m) auto

lemma fmdom_indexNodes: "fmdom (indexNodes i nodes m) = fset_of_list nodes |\<union>| fmdom m"
  by (induction nodes arbitrary: m) auto

lemma fmdom_indexValidators:
  "fmdom (indexValidators i vdrs m) = fset_of_list (concat (map NodeIDs vdrs)) |\<union>| fmdom m"
  by (induction vdrs arbitrary: i m) (auto simp: fmdom_indexNodes)

lemma fmdom_buildNodeValidatorIndexMap:
  "fmdom (buildNodeValidatorIndexMap vdrs) = fset_of_list (concat (map NodeIDs vdrs))"
  by (simp add: buildNodeValidatorIndexMap_def fmdom_indexValidators)

lemma owners_Nil [simp]: "owners [] node = []"
  by (simp add: owners_def)

lemma owners_Cons:
  "owners (vdr # vdrs) node =
     (if node \<in> set (NodeIDs vdr) then [0] else []) @ map Suc (owners vdrs node)"
proof -
  have "[0..<length (vdr # vdrs)] = 0 # map Suc [0..<length vdrs]"
    by (simp add: upt_conv_Cons map_Suc_upt del: upt_Suc)
  then show ?thesis
    by (simp add: owners_def filter_map comp_def del: upt_Suc)
qed

lemma fmlookup_indexValidators:
  "fmlookup (indexValidators i vdrs m) node =
     (if owners vdrs node = [] then fmlookup m node else Some (i + last (owners vdrs node)))"
proof (induction vdrs arbitrary: i m)
  case Nil
  show ?case by simp
next
  case (Cons vdr vdrs)
  show ?case
    by (simp add: Cons.IH fmlookup_indexNodes owners_Cons last_map)
qed

lemma fmlookup_buildNodeValidatorIndexMap:
  "fmlookup (buildNodeValidatorIndexMap vdrs) node =
     (if owners vdrs node = [] then None else Some (last (owners vdrs node)))"
  by (simp add: buildNodeValidatorIndexMap_def fmlookup_indexValidators)

lemma owners_set: "set (owners vdrs node) = {i. i < length vdrs \<and> node \<in> set (NodeIDs (vdrs ! i))}"
  by (auto simp: owners_def)

lemma owners_sorted: "sorted (owners vdrs node)"
  unfolding owners_def by (rule sorted_wrt_filter) simp

lemma sorted_le_last: "sorted xs \<Longrightarrow> (x::nat) \<in> set xs \<Longrightarrow> x \<le> last xs"
  by (induction xs) auto

lemma Max_owners:
  assumes "owners vdrs node \<noteq> []"
  shows "Max (set (owners vdrs node)) = last (owners vdrs node)"
proof (rule Max_eqI)
  show "finite (set (owners vdrs node))" by simp
  show "\<And>y. y \<in> set (owners vdrs node) \<Longrightarrow> y \<le> last (owners vdrs node)"
    by (rule sorted_le_last [OF owners_sorted])
  show "last (owners vdrs node) \<in> set (owners vdrs node)"
    using assms by simp
qed

lemma owners_nonempty_iff:
  "owners vdrs node \<noteq> [] \<longleftrightarrow> node |\<in>| fmdom (buildNodeValidatorIndexMap vdrs)"
  by (simp add: fmlookup_dom_iff fmlookup_buildNodeValidatorIndexMap)

lemma mapIndex_buildNodeValidatorIndexMap:
  "owners vdrs node \<noteq> [] \<Longrightarrow>
     mapIndex (buildNodeValidatorIndexMap vdrs) node = Max (set (owners vdrs node))"
  by (simp add: mapIndex_def fmlookup_buildNodeValidatorIndexMap Max_owners)

lemma Max_owners_in_range:
  assumes "owners vdrs node \<noteq> []"
  shows "Max (set (owners vdrs node)) < length vdrs"
proof -
  have "Max (set (owners vdrs node)) \<in> set (owners vdrs node)"
    using assms by (intro Max_in) simp_all
  then show ?thesis by (simp add: owners_set)
qed

lemma sumConnectedWeight_connected:
  assumes "connectedNodes |\<subseteq>| fmdom (buildNodeValidatorIndexMap vdrs)"
  shows "sumConnectedWeight vdrs (buildNodeValidatorIndexMap vdrs) connectedNodes =
           Inr (\<Sum>node \<in> fset connectedNodes. Weight (vdrs ! Max (set (owners vdrs node))))"
proof -
  have ne: "\<And>node. node |\<in>| connectedNodes \<Longrightarrow> owners vdrs node \<noteq> []"
    using assms by (auto simp: owners_nonempty_iff)
  have inr: "fBall connectedNodes (\<lambda>node. mapIndex (buildNodeValidatorIndexMap vdrs) node < length vdrs)"
  proof
    fix node assume "node |\<in>| connectedNodes"
    then have o: "owners vdrs node \<noteq> []" by (rule ne)
    show "mapIndex (buildNodeValidatorIndexMap vdrs) node < length vdrs"
      unfolding mapIndex_buildNodeValidatorIndexMap [OF o] by (rule Max_owners_in_range [OF o])
  qed
  have "(\<Sum>node \<in> fset connectedNodes. Weight (vdrs ! mapIndex (buildNodeValidatorIndexMap vdrs) node))
        = (\<Sum>node \<in> fset connectedNodes. Weight (vdrs ! Max (set (owners vdrs node))))"
    by (rule sum.cong) (use ne in \<open>auto simp: mapIndex_buildNodeValidatorIndexMap\<close>)
  with inr show ?thesis by (simp add: sumConnectedWeight_def)
qed

lemma ConnectToCanonicalValidators_resolved:
  assumes "validatorClient_GetCurrentCanonicalValidatorSet n subnetID = Inr (vdrs, totalValidatorWeight)"
  shows "ConnectToCanonicalValidators n subnetID =
           (Inr \<lparr>ConnectedWeight =
                    (\<Sum>node \<in> fset (fst (ConnectPeers n (fmdom (buildNodeValidatorIndexMap vdrs)))).
                        Weight (vdrs ! Max (set (owners vdrs node)))),
                 TotalValidatorWeight = totalValidatorWeight,
                 ValidatorSet = vdrs,
                 NodeValidatorIndexMap = buildNodeValidatorIndexMap vdrs\<rparr>,
            snd (ConnectPeers n (fmdom (buildNodeValidatorIndexMap vdrs))))"
  using assms sumConnectedWeight_connected [OF ConnectPeers_subset [of n "fmdom (buildNodeValidatorIndexMap vdrs)"]]
  by (simp add: ConnectToCanonicalValidators_def Let_def split_beta)

lemma buildNodeValidatorIndexMap_exampleSet:
  "buildNodeValidatorIndexMap exampleSet = fmupd 4 2 (fmupd 3 1 (fmupd 2 0 (fmupd 1 0 fmempty)))"
  by (simp add: buildNodeValidatorIndexMap_def exampleSet_def vdrA_def vdrB_def vdrC_def
        numeral_2_eq_2)

lemma fmdom_exampleSet: "fmdom (buildNodeValidatorIndexMap exampleSet) = {|1, 2, 3, 4|}"
  by (auto simp add: buildNodeValidatorIndexMap_exampleSet)

lemma exampleSet_unique_owner:
  "\<forall>i<length exampleSet. \<forall>j<length exampleSet.
      i \<noteq> j \<longrightarrow> set (NodeIDs (exampleSet ! i)) \<inter> set (NodeIDs (exampleSet ! j)) = {}"
  by (simp add: exampleSet_def vdrA_def vdrB_def vdrC_def All_less_Suc numeral_3_eq_3)

lemma owners_sharedSet:
  "owners sharedSet (Suc 0) = [0]" "owners sharedSet 2 = [0, 1]" "owners sharedSet 3 = [1]"
  by (simp_all add: owners_def sharedSet_def upt_rec)

text \<open>
  Claim C1 at a concrete input. The validator client answers the example set, whose first
  validator (weight 40) runs the nodes 1 and 2; no peer is connected yet and the peer
  directory lists all four nodes, so \<^verbatim>\<open>ConnectPeers\<close> returns all four. The loop over
  the connected nodes adds the weight 40 once for node 1 and once for node 2: the
  connected weight is 140, whereas the weights of the validators with a connected node
  sum to 100, which is also the total weight.
\<close>

theorem ConnectedWeight_counts_every_node:
  "fst (ConnectToCanonicalValidators (exampleNetwork [] (Inr examplePeers)) 0)
     = Inr \<lparr>ConnectedWeight = 140, TotalValidatorWeight = 100, ValidatorSet = exampleSet,
            NodeValidatorIndexMap = buildNodeValidatorIndexMap exampleSet\<rparr>
   \<and> fst (ConnectPeers (exampleNetwork [] (Inr examplePeers))
            (fmdom (buildNodeValidatorIndexMap exampleSet))) = {|1, 2, 3, 4|}
   \<and> weightOfConnectedValidators exampleSet {|1, 2, 3, 4|} = 100"
  by code_simp






text \<open>
  Claim C6. When no node identifier is in the node lists of two different validators of
  the resolved set, the index map of the result has as its domain the union of the node
  lists, it maps every node of the validator at index \<open>i\<close> to \<open>i\<close>, and the set given
  to \<^verbatim>\<open>ConnectPeers\<close> (the argument of its first call, the connection check) is that
  domain.
\<close>

theorem NodeValidatorIndexMap_unique_owner:
  assumes "validatorClient_GetCurrentCanonicalValidatorSet n subnetID = Inr (vdrs, totalValidatorWeight)"
    and "\<forall>i<length vdrs. \<forall>j<length vdrs.
            i \<noteq> j \<longrightarrow> set (NodeIDs (vdrs ! i)) \<inter> set (NodeIDs (vdrs ! j)) = {}"
  shows "\<exists>r evs. ConnectToCanonicalValidators n subnetID
                    = (Inr r, PeerInfoCall (fmdom (NodeValidatorIndexMap r)) # evs)
           \<and> snd (ConnectToCanonicalValidators n subnetID)
               = snd (ConnectPeers n (fmdom (NodeValidatorIndexMap r)))
           \<and> fset (fmdom (NodeValidatorIndexMap r)) = (\<Union>vdr \<in> set vdrs. set (NodeIDs vdr))
           \<and> (\<forall>i<length vdrs. \<forall>node \<in> set (NodeIDs (vdrs ! i)).
                 fmlookup (NodeValidatorIndexMap r) node = Some i)"
proof -
  let ?m = "buildNodeValidatorIndexMap vdrs"
  obtain evs where evs: "snd (ConnectPeers n (fmdom ?m)) = PeerInfoCall (fmdom ?m) # evs"
    using ConnectPeers_first_event by blast
  have dom: "fset (fmdom ?m) = (\<Union>vdr \<in> set vdrs. set (NodeIDs vdr))"
    by (simp add: fmdom_buildNodeValidatorIndexMap fset_of_list.rep_eq)
  have look: "\<forall>i<length vdrs. \<forall>node \<in> set (NodeIDs (vdrs ! i)). fmlookup ?m node = Some i"
  proof (intro allI impI ballI)
    fix i node assume i: "i < length vdrs" and node: "node \<in> set (NodeIDs (vdrs ! i))"
    have mem: "i \<in> set (owners vdrs node)" using i node by (simp add: owners_set)
    have only: "j = i" if "j \<in> set (owners vdrs node)" for j
      using that assms(2) i node by (auto simp: owners_set)
    have "last (owners vdrs node) \<in> set (owners vdrs node)"
      using mem by (intro last_in_set) auto
    then have "last (owners vdrs node) = i" by (rule only)
    then show "fmlookup ?m node = Some i"
      using mem by (auto simp: fmlookup_buildNodeValidatorIndexMap)
  qed
  show ?thesis
    using ConnectToCanonicalValidators_resolved [OF assms(1)] evs dom look by simp
qed

theorem NodeValidatorIndexMap_unique_owner_witness:
  "\<exists>r evs. ConnectToCanonicalValidators (exampleNetwork [] (Inr examplePeers)) 0
              = (Inr r, PeerInfoCall {|1, 2, 3, 4|} # evs)
     \<and> fmdom (NodeValidatorIndexMap r) = {|1, 2, 3, 4|}
     \<and> fmlookup (NodeValidatorIndexMap r) 2 = Some 0
     \<and> fmlookup (NodeValidatorIndexMap r) 4 = Some 2"
proof -
  let ?n = "exampleNetwork [] (Inr examplePeers)"
  have h: "validatorClient_GetCurrentCanonicalValidatorSet ?n 0 = Inr (exampleSet, 100)"
    by (simp add: exampleNetwork_def)
  from NodeValidatorIndexMap_unique_owner [OF h exampleSet_unique_owner]
  obtain r evs where
    r: "ConnectToCanonicalValidators ?n 0 = (Inr r, PeerInfoCall (fmdom (NodeValidatorIndexMap r)) # evs)"
       "\<forall>i<length exampleSet. \<forall>node \<in> set (NodeIDs (exampleSet ! i)).
           fmlookup (NodeValidatorIndexMap r) node = Some i"
    by blast
  have m: "NodeValidatorIndexMap r = buildNodeValidatorIndexMap exampleSet"
    using r(1) ConnectToCanonicalValidators_resolved [OF h] by auto
  have "fmlookup (NodeValidatorIndexMap r) 2 = Some 0"
    using r(2) [rule_format, of 0 2] by (simp add: exampleSet_def vdrA_def)
  moreover have "fmlookup (NodeValidatorIndexMap r) 4 = Some 2"
    using r(2) [rule_format, of 2 4] by (simp add: exampleSet_def vdrC_def)
  ultimately show ?thesis
    using r(1) m fmdom_exampleSet by auto
qed

text \<open>
  Claim C10. Every node that is in the node list of some validator is mapped to the
  greatest index among its owners, so with several owners the last one wins; and the
  connected weight is the sum, over the connected nodes, of the weight of that last
  owner.
\<close>

theorem NodeValidatorIndexMap_last_owner:
  assumes "validatorClient_GetCurrentCanonicalValidatorSet n subnetID = Inr (vdrs, totalValidatorWeight)"
  shows "\<exists>r. fst (ConnectToCanonicalValidators n subnetID) = Inr r
           \<and> (\<forall>node. owners vdrs node \<noteq> [] \<longrightarrow>
                 fmlookup (NodeValidatorIndexMap r) node = Some (Max (set (owners vdrs node))))
           \<and> ConnectedWeight r
               = (\<Sum>node \<in> fset (fst (ConnectPeers n (fmdom (NodeValidatorIndexMap r)))).
                    Weight (vdrs ! Max (set (owners vdrs node))))"
  using ConnectToCanonicalValidators_resolved [OF assms]
  by (simp add: fmlookup_buildNodeValidatorIndexMap Max_owners)

theorem NodeValidatorIndexMap_last_owner_witness:
  "validatorClient_GetCurrentCanonicalValidatorSet (sharedNetwork [] (Inr examplePeers)) 0
     = Inr (sharedSet, 75)
   \<and> owners sharedSet 2 = [0, 1]
   \<and> (\<exists>r. fst (ConnectToCanonicalValidators (sharedNetwork [] (Inr examplePeers)) 0) = Inr r
         \<and> fmlookup (NodeValidatorIndexMap r) 2 = Some 1
         \<and> ConnectedWeight r = 110)"
proof -
  let ?n = "sharedNetwork [] (Inr examplePeers)"
  have h: "validatorClient_GetCurrentCanonicalValidatorSet ?n 0 = Inr (sharedSet, 75)"
    by (simp add: sharedNetwork_def)
  have d: "fmdom (buildNodeValidatorIndexMap sharedSet) = {|1, 2, 3|}"
    by (auto simp: buildNodeValidatorIndexMap_def sharedSet_def)
  have c: "fst (ConnectPeers ?n {|1, 2, 3|}) = {|1, 2, 3|}"
    by (auto simp: ConnectPeers_def sharedNetwork_def exampleNetwork_def peerInfoOf_def
          examplePeers_def fcard_finsert_if Let_def)
  from NodeValidatorIndexMap_last_owner [OF h] obtain r where
    r: "fst (ConnectToCanonicalValidators ?n 0) = Inr r"
       "\<forall>node. owners sharedSet node \<noteq> [] \<longrightarrow>
           fmlookup (NodeValidatorIndexMap r) node = Some (Max (set (owners sharedSet node)))"
       "ConnectedWeight r
          = (\<Sum>node \<in> fset (fst (ConnectPeers ?n (fmdom (NodeValidatorIndexMap r)))).
               Weight (sharedSet ! Max (set (owners sharedSet node))))"
    by blast
  have m: "NodeValidatorIndexMap r = buildNodeValidatorIndexMap sharedSet"
    using r(1) ConnectToCanonicalValidators_resolved [OF h] by auto
  have l: "fmlookup (NodeValidatorIndexMap r) 2 = Some 1"
    using r(2) [rule_format, of 2] by (simp add: owners_sharedSet)
  have w: "ConnectedWeight r = 110"
    unfolding r(3) m d c
    apply (simp add: owners_sharedSet)
    apply (simp add: sharedSet_def)
    done
  show ?thesis using h r(1) l w owners_sharedSet(2) by blast
qed

section \<open>Properties of the signature collection\<close>

lemma weightOf_finsert: "i |\<notin>| S \<Longrightarrow> weightOf cv (finsert i S) = unat (Weight (ValidatorSet cv ! i)) + weightOf cv S"
  by (simp add: weightOf_def)

lemma weightOf_mono: "A |\<subseteq>| B \<Longrightarrow> weightOf cv A \<le> weightOf cv B"
  unfolding weightOf_def by (rule sum_mono2) (auto simp: less_eq_fset.rep_eq)

lemma verifiedSigners_Nil [simp]: "verifiedSigners verify cv msg [] = {||}"
  by (simp add: verifiedSigners_def List.map_filter_simps)

lemma verifiedSigners_Cons:
  "verifiedSigners verify cv msg (r # rs) =
     (case creditedValidator verify cv msg r of
        None \<Rightarrow> verifiedSigners verify cv msg rs
      | Some i \<Rightarrow> finsert i (verifiedSigners verify cv msg rs))"
  by (simp add: verifiedSigners_def List.map_filter_simps split: option.splits)

lemma collectRound_quorum:
  assumes "achieved = weightOf cv bits"
  shows "(case collectRound verify cv msg q ending responses bits achieved of
            Inl e \<Rightarrow> weightOf cv (bits |\<union>| verifiedSigners verify cv msg responses) < q
          | Inr (bits', achieved') \<Rightarrow>
              q \<le> achieved' \<and> achieved' = weightOf cv bits'
              \<and> bits' |\<subseteq>| bits |\<union>| verifiedSigners verify cv msg responses)"
  using assms
proof (induction responses arbitrary: bits achieved)
  case Nil
  then show ?case by simp
next
  case (Cons r rs)
  show ?case
  proof (cases "q \<le> achieved")
    case True
    then show ?thesis using Cons.prems by simp
  next
    case False
    show ?thesis
    proof (cases "creditedValidator verify cv msg r")
      case None
      have vs: "verifiedSigners verify cv msg (r # rs) = verifiedSigners verify cv msg rs"
        using None by (simp add: verifiedSigners_Cons)
      have cr: "collectRound verify cv msg q ending (r # rs) bits achieved
                  = collectRound verify cv msg q ending rs bits achieved"
        using False None by simp
      show ?thesis unfolding vs cr by (rule Cons.IH [OF Cons.prems])
    next
      case (Some i)
      have vs: "verifiedSigners verify cv msg (r # rs)
                  = finsert i (verifiedSigners verify cv msg rs)"
        using Some by (simp add: verifiedSigners_Cons)
      show ?thesis
      proof (cases "i |\<in>| bits")
        case True
        have un: "bits |\<union>| finsert i (verifiedSigners verify cv msg rs)
                    = bits |\<union>| verifiedSigners verify cv msg rs"
          using True by auto
        have cr: "collectRound verify cv msg q ending (r # rs) bits achieved
                    = collectRound verify cv msg q ending rs bits achieved"
          using False Some True by simp
        show ?thesis unfolding vs un cr by (rule Cons.IH [OF Cons.prems])
      next
        case notin: False
        have inv: "achieved + unat (Weight (ValidatorSet cv ! i)) = weightOf cv (finsert i bits)"
          using notin Cons.prems by (simp add: weightOf_finsert)
        have un: "bits |\<union>| finsert i (verifiedSigners verify cv msg rs)
                    = finsert i bits |\<union>| verifiedSigners verify cv msg rs"
          by auto
        have cr: "collectRound verify cv msg q ending (r # rs) bits achieved
                    = collectRound verify cv msg q ending rs (finsert i bits)
                        (achieved + unat (Weight (ValidatorSet cv ! i)))"
          using False Some notin by simp
        show ?thesis unfolding vs un cr by (rule Cons.IH [OF inv])
      qed
    qed
  qed
qed

text \<open>
  Claim C7. A round of \<^verbatim>\<open>CollectSignatures\<close> succeeds exactly when the weights of the
  validators whose signatures are received and verified in the round sum to at least the
  quorum weight; and a round that succeeds reports an achieved weight that is at least
  the quorum weight and is the sum of the weights of the contributors it reports, all of
  them validators with a verified signature.
\<close>

theorem CollectSignatures_quorum:
  "(\<exists>res. CollectSignatures verify cv msg quorumWeight ending responses = Inr res)
     = (quorumWeight \<le> weightOf cv (verifiedSigners verify cv msg responses))
   \<and> (\<forall>res. CollectSignatures verify cv msg quorumWeight ending responses = Inr res \<longrightarrow>
         quorumWeight \<le> achievedWeight res
         \<and> achievedWeight res = weightOf cv (signers res)
         \<and> signers res |\<subseteq>| verifiedSigners verify cv msg responses)"
proof -
  have c: "case collectRound verify cv msg quorumWeight ending responses {||} 0 of
             Inl e \<Rightarrow> weightOf cv ({||} |\<union>| verifiedSigners verify cv msg responses) < quorumWeight
           | Inr (bits', achieved') \<Rightarrow>
               quorumWeight \<le> achieved' \<and> achieved' = weightOf cv bits'
               \<and> bits' |\<subseteq>| {||} |\<union>| verifiedSigners verify cv msg responses"
    by (rule collectRound_quorum) (simp add: weightOf_def)
  show ?thesis
  proof (cases "collectRound verify cv msg quorumWeight ending responses {||} 0")
    case (Inl err)
    then show ?thesis using c by (simp add: CollectSignatures_def)
  next
    case (Inr p)
    obtain bits achieved where p: "p = (bits, achieved)" by (cases p)
    have "weightOf cv bits \<le> weightOf cv (verifiedSigners verify cv msg responses)"
      using c Inr p by (simp add: weightOf_mono)
    then show ?thesis using c Inr p by (auto simp: CollectSignatures_def)
  qed
qed

theorem CollectSignatures_quorum_witness:
  "CollectSignatures exampleVerify exampleConnected ''m'' 67 Exhausted
       [response 1 ''A:m'', response 4 ''B:m'', response 2 ''A:m'', response 3 ''B:m'']
     = Inr \<lparr>signers = {|0, 1|}, achievedWeight = 75, totalWeight = 100\<rparr>
   \<and> weightOf exampleConnected
         (verifiedSigners exampleVerify exampleConnected ''m''
            [response 1 ''A:m'', response 4 ''B:m'', response 2 ''A:m'', response 3 ''B:m'']) = 75
   \<and> CollectSignatures exampleVerify exampleConnected ''m'' 67 Exhausted
         [response 1 ''A:m'', response 4 ''C:m'']
       = Inl (QuorumNotMetError 65 67)
   \<and> weightOf exampleConnected
         (verifiedSigners exampleVerify exampleConnected ''m''
            [response 1 ''A:m'', response 4 ''C:m'']) = 65"
proof -
  have m: "buildNodeValidatorIndexMap exampleSet
             = fmupd 4 2 (fmupd 3 1 (fmupd 2 0 (fmupd 1 0 fmempty)))"
    by (simp add: buildNodeValidatorIndexMap_def exampleSet_def vdrA_def vdrB_def vdrC_def
          numeral_2_eq_2)
  have a: "CollectSignatures exampleVerify exampleConnected ''m'' 67 Exhausted
             [response 1 ''A:m'', response 4 ''B:m'', response 2 ''A:m'', response 3 ''B:m'']
           = Inr \<lparr>signers = {|0, 1|}, achievedWeight = 75, totalWeight = 100\<rparr>"
    by code_simp
  have b: "CollectSignatures exampleVerify exampleConnected ''m'' 67 Exhausted
             [response 1 ''A:m'', response 4 ''C:m'']
           = Inl (QuorumNotMetError 65 67)"
    by code_simp
  have c: "weightOf exampleConnected
         (verifiedSigners exampleVerify exampleConnected ''m''
            [response 1 ''A:m'', response 4 ''B:m'', response 2 ''A:m'', response 3 ''B:m'']) = 75"
    by code_simp
  have d: "weightOf exampleConnected
         (verifiedSigners exampleVerify exampleConnected ''m''
            [response 1 ''A:m'', response 4 ''C:m'']) = 65"
    by code_simp
  show ?thesis
    using a b c d
      CollectSignatures_quorum [of exampleVerify exampleConnected "''m''" 67 Exhausted
        "[response 1 ''A:m'', response 4 ''B:m'', response 2 ''A:m'', response 3 ''B:m'']"]
    by simp
qed

end
